theory Spec2Isabelle
  imports Main "HOL-Library.Word"
begin

unbundle bit_operations_syntax

section \<open>Data model\<close>

text \<open>
  A value of a scoped enum \<open>E\<close> is modelled by the bits of its underlying integer, an
  \<open>'a word\<close> whose width \<open>LENGTH('a)\<close> is the width of \<open>std::underlying_type_t<E>\<close>;
  the dereference operator \<open>*v\<close> (\<open>as_underlying\<close>) reads exactly these bits. The
  integer promotions of C++ (a narrow operand is widened to \<open>int\<close>, the result is cast back
  to \<open>E\<close>) do not change the low \<open>LENGTH('a)\<close> bits of \<open>|\<close>, \<open>&\<close>, \<open>^\<close> and \<open>~\<close>, so the
  operators are the word operations at width \<open>LENGTH('a)\<close>. Where the sign of the
  underlying type matters (a conversion to the wider \<open>size_t\<close>), it is a parameter.
  \<open>int\<close> is taken to be 32 bits wide and \<open>size_t\<close> 64 bits wide.
\<close>

type_synonym size_t = "64 word"

text \<open>\<open>wrapclip\<close> (declared in enums_shared.h): the default value and \<open>limit\<close>.\<close>

datatype wrapclip = wc_none | wc_limit

text \<open>
  The registered specification object: \<open>bitmask_enum_spec<E, validbits, bitclip>\<close> with
  \<open>uint64_t validbits\<close> and \<open>wrapclip bitclip\<close>.
\<close>

record bitmask_enum_spec =
  spec_valid_bits :: "64 word"
  spec_bit_clip :: wrapclip

text \<open>\<open>bitmask_enum_names_spec\<close> adds the array of names.\<close>

record bitmask_enum_names_spec = bitmask_enum_spec +
  names :: "string list"

datatype error =
  UndefinedShift       \<comment> \<open>a shift of an \<open>int\<close> by a count outside 0..31\<close>
  | OutOfBounds        \<comment> \<open>\<open>std::array::operator[]\<close> past the end\<close>
  | StaticAssertFailed \<comment> \<open>the translation unit is rejected\<close>

section \<open>Trait derivation\<close>

definition valid_bits_v :: "('z bitmask_enum_spec_scheme) \<Rightarrow> 64 word" where
  "valid_bits_v sp = spec_valid_bits sp"

definition bit_clip_v :: "('z bitmask_enum_spec_scheme) \<Rightarrow> bool" where
  "bit_clip_v sp = (spec_bit_clip sp = wc_limit)"

definition BitmaskEnum :: "('z bitmask_enum_spec_scheme) \<Rightarrow> bool" where
  "BitmaskEnum sp = (valid_bits_v sp \<noteq> 0)"

text \<open>\<open>E(valid_bits_v<E>)\<close>: the 64-bit mask converted to the underlying type.\<close>

definition do_max_value :: "('z bitmask_enum_spec_scheme) \<Rightarrow> 'a::len word" where
  "do_max_value sp = ucast (valid_bits_v sp)"

section \<open>Operator overloads\<close>

definition op_or :: "'a::len word \<Rightarrow> 'a word \<Rightarrow> 'a word" where
  "op_or l r = l OR r"

definition op_and :: "'a::len word \<Rightarrow> 'a word \<Rightarrow> 'a word" where
  "op_and l r = l AND r"

definition op_xor :: "'a::len word \<Rightarrow> 'a word \<Rightarrow> 'a word" where
  "op_xor l r = l XOR r"

definition op_compl :: "('z bitmask_enum_spec_scheme) \<Rightarrow> 'a::len word \<Rightarrow> 'a word" where
  "op_compl sp v = (if bit_clip_v sp then op_xor v (do_max_value sp) else NOT v)"

definition op_plus :: "'a::len word \<Rightarrow> 'a word \<Rightarrow> 'a word" where
  "op_plus l r = op_or l r"

definition op_minus :: "('z bitmask_enum_spec_scheme) \<Rightarrow> 'a::len word \<Rightarrow> 'a word \<Rightarrow> 'a word" where
  "op_minus sp l r = op_and l (op_compl sp r)"

text \<open>
  \<open>l -= r\<close> is \<open>return l = l - r\<close>: the first component is the new content of the
  variable \<open>l\<close>, the second what is read through the returned reference (which is \<open>l\<close>).
\<close>

definition op_minus_assign ::
  "('z bitmask_enum_spec_scheme) \<Rightarrow> 'a::len word \<Rightarrow> 'a word \<Rightarrow> 'a word \<times> 'a word" where
  "op_minus_assign sp l r = (let l' = op_minus sp l r in (l', l'))"

section \<open>Named functions\<close>

definition max_value :: "('z bitmask_enum_spec_scheme) \<Rightarrow> 'a::len word" where
  "max_value sp = do_max_value sp"

definition min_value :: "'a::len word" where
  "min_value = 0"

text \<open>\<open>std::bit_width\<close>: the position of the highest set bit, plus one; 0 for 0.\<close>

fun bit_width :: "nat \<Rightarrow> nat" where
  "bit_width n = (if n = 0 then 0 else Suc (bit_width (n div 2)))"

declare bit_width.simps [simp del]

definition bits_length :: "('z bitmask_enum_spec_scheme) \<Rightarrow> nat" where
  "bits_length sp = bit_width (unat (valid_bits_v sp))"

text \<open>
  \<open>to_integer<size_t>(v)\<close> is \<open>static_cast<size_t>(v)\<close>: a signed underlying value is
  sign-extended, an unsigned one zero-extended.
\<close>

definition to_integer_size_t :: "bool \<Rightarrow> 'a::len word \<Rightarrow> size_t" where
  "to_integer_size_t sg v = (if sg then scast v else ucast v)"

definition range_length :: "bool \<Rightarrow> ('z bitmask_enum_spec_scheme) \<Rightarrow> 'a::len itself \<Rightarrow> size_t" where
  "range_length sg sp ty = to_integer_size_t sg (max_value sp :: 'a word) + 1"

definition make_safely :: "('z bitmask_enum_spec_scheme) \<Rightarrow> 'a::len word \<Rightarrow> 'a word" where
  "make_safely sp u = op_and u (max_value sp)"

definition make :: "('z bitmask_enum_spec_scheme) \<Rightarrow> 'a::len word \<Rightarrow> 'a word" where
  "make sp u = (if bit_clip_v sp then make_safely sp u else u)"

text \<open>
  \<open>make<E>(1 << (ndx - 1))\<close>: \<open>ndx\<close> is a \<open>size_t\<close>, so \<open>ndx - 1\<close> wraps to
  \<open>2^64 - 1\<close> at 0; the literal \<open>1\<close> is an \<open>int\<close>, so the shift is done on 32 bits,
  is undefined for a count above 31, and its \<open>int\<close> result is converted to the
  underlying type (sign-extended when that is wider).
\<close>

definition make_at :: "('z bitmask_enum_spec_scheme) \<Rightarrow> nat \<Rightarrow> error + 'a::len word" where
  "make_at sp ndx =
     (let cnt = (if ndx = 0 then 2 ^ 64 - 1 else ndx - 1) in
      if 32 \<le> cnt then Inl UndefinedShift
      else Inr (make sp (scast (push_bit cnt (1 :: 32 word)))))"

definition set_bits :: "'a::len word \<Rightarrow> 'a word \<Rightarrow> 'a word" where
  "set_bits v m = op_plus v m"

definition clear :: "('z bitmask_enum_spec_scheme) \<Rightarrow> 'a::len word \<Rightarrow> 'a word \<Rightarrow> 'a word" where
  "clear sp v m = op_minus sp v m"

definition flip :: "('z bitmask_enum_spec_scheme) \<Rightarrow> 'a::len word \<Rightarrow> 'a word" where
  "flip sp v = op_xor v (max_value sp)"

definition has :: "'a::len word \<Rightarrow> 'a word \<Rightarrow> bool" where
  "has v m = (op_and v m \<noteq> 0)"

definition has_all :: "'a::len word \<Rightarrow> 'a word \<Rightarrow> bool" where
  "has_all v m = (op_and v m = m)"

section \<open>Compile-time strings and spec construction\<close>

text \<open>
  Modelled from the spec: \<open>strings::fixed_split\<close> (strings/lite.h is not part of the
  sources at hand). It partitions the literal on the comma into its pieces, in order,
  keeping the empty pieces of adjacent, leading and trailing delimiters.
\<close>

fun fixed_split :: "string \<Rightarrow> string list" where
  "fixed_split [] = [[]]"
| "fixed_split (c # cs) =
     (if c = CHR '','' then [] # fixed_split cs
      else (case fixed_split cs of [] \<Rightarrow> [[c]] | p # ps \<Rightarrow> (c # p) # ps))"

text \<open>\<open>bit_names.view().starts_with(",")\<close>.\<close>

fun starts_with_comma :: "string \<Rightarrow> bool" where
  "starts_with_comma [] = False"
| "starts_with_comma (c # cs) = (c = CHR '','')"

text \<open>
  One round of the loop of \<open>calc_valid_bits_from_bit_names\<close>, which walks the names
  from the last to the first: \<open>if (!name.empty()) valid_bits |= pow2; pow2 <<= 1\<close>.
\<close>

definition bit_names_step :: "string \<Rightarrow> 64 word \<times> 64 word \<Rightarrow> 64 word \<times> 64 word" where
  "bit_names_step nm st =
     (case st of (valid_bits, pow2) \<Rightarrow>
        ((if nm \<noteq> [] then valid_bits OR pow2 else valid_bits), push_bit 1 pow2))"

text \<open>The \<open>static_assert\<close> rejects the program; otherwise the loop runs.\<close>

definition calc_valid_bits_from_bit_names :: "string \<Rightarrow> error + 64 word" where
  "calc_valid_bits_from_bit_names bit_names =
     (if starts_with_comma bit_names then Inl StaticAssertFailed
      else Inr (fst (fold bit_names_step (rev (fixed_split bit_names)) (0, 1))))"

text \<open>\<open>for (size_t i = 1; i < size; ++i) if (!name_array[i].empty()) valid_bits |= i\<close>.\<close>

definition value_names_step :: "string list \<Rightarrow> nat \<Rightarrow> 64 word \<Rightarrow> 64 word" where
  "value_names_step name_array i valid_bits =
     (if name_array ! i \<noteq> [] then valid_bits OR of_nat i else valid_bits)"

definition calc_valid_bits_of_value_names :: "string list \<Rightarrow> 64 word" where
  "calc_valid_bits_of_value_names name_array =
     fold (value_names_step name_array) [1 ..< length name_array] 0"

definition calc_valid_bits_from_value_names :: "string \<Rightarrow> 64 word" where
  "calc_valid_bits_from_value_names bit_names =
     calc_valid_bits_of_value_names (fixed_split bit_names)"

text \<open>\<open>make_bitmask_enum_spec<E, bit_names, bitclip>()\<close>, the overload with names.\<close>

definition make_bitmask_enum_spec :: "string \<Rightarrow> wrapclip \<Rightarrow> error + bitmask_enum_names_spec" where
  "make_bitmask_enum_spec bit_names bitclip =
     (case calc_valid_bits_from_bit_names bit_names of
        Inl e \<Rightarrow> Inl e
      | Inr valid_bits \<Rightarrow>
          Inr \<lparr>spec_valid_bits = valid_bits, spec_bit_clip = bitclip,
               names = fixed_split bit_names\<rparr>)"

definition make_bitmask_enum_values_spec :: "string \<Rightarrow> wrapclip \<Rightarrow> bitmask_enum_names_spec" where
  "make_bitmask_enum_values_spec bit_names bitclip =
     \<lparr>spec_valid_bits = calc_valid_bits_from_value_names bit_names,
      spec_bit_clip = bitclip, names = fixed_split bit_names\<rparr>"

section \<open>Name-table renderer\<close>

text \<open>
  Modelled from the spec: \<open>strings::delim::append_skip_first\<close> (strings/lite.h). The
  first call only clears the flag, every later call appends the separator (names are
  joined by \<open>" + "\<close> for all but the first match).
\<close>

definition append_skip_first :: "string \<Rightarrow> bool \<Rightarrow> string \<times> bool" where
  "append_skip_first target first = ((if first then target else target @ '' + ''), False)"

text \<open>
  Modelled from the spec: \<open>strings::append_num<16>\<close> (strings/conversion.h), the
  numeric-append helper: the digits of the value in base 16, without a prefix. The value
  is read as its unsigned bit pattern.
\<close>

definition hex_digit :: "nat \<Rightarrow> char" where
  "hex_digit d = ''0123456789abcdef'' ! d"

fun hex_of_nat :: "nat \<Rightarrow> string" where
  "hex_of_nat n = (if n < 16 then [hex_digit n] else hex_of_nat (n div 16) @ [hex_digit (n mod 16)])"

declare hex_of_nat.simps [simp del]

definition append_num16 :: "string \<Rightarrow> 'a::len word \<Rightarrow> string" where
  "append_num16 target v = target @ hex_of_nat (unat v)"

text \<open>\<open>names[i]\<close> on the \<open>std::array\<close>: an index past the end is undefined behaviour.\<close>

definition names_at :: "string list \<Rightarrow> nat \<Rightarrow> error + string" where
  "names_at nms i = (if i < length nms then Inr (nms ! i) else Inl OutOfBounds)"

text \<open>
  The state of both renderers is the target, the flag \<open>first\<close> and the working copy of
  \<open>v\<close>. The loop of \<open>do_bit_append\<close> runs \<open>ndx\<close> from \<open>N\<close> down to 1.
\<close>

fun do_bit_append_loop ::
  "('z bitmask_enum_spec_scheme) \<Rightarrow> string list \<Rightarrow> nat \<Rightarrow> string \<times> bool \<times> 'a::len word
     \<Rightarrow> error + (string \<times> bool \<times> 'a word)" where
  "do_bit_append_loop sp nms 0 st = Inr st"
| "do_bit_append_loop sp nms (Suc k) (target, first, v) =
     (case make_at sp (Suc k) of
        Inl e \<Rightarrow> Inl e
      | Inr mask_v \<Rightarrow>
          if has v mask_v then
            (case names_at nms (length nms - Suc k) of
               Inl e \<Rightarrow> Inl e
             | Inr nm \<Rightarrow>
                 if nm \<noteq> [] then
                   (case append_skip_first target first of
                      (t1, f1) \<Rightarrow> do_bit_append_loop sp nms k (t1 @ nm, f1, v AND NOT mask_v))
                 else do_bit_append_loop sp nms k (target, first, v))
          else do_bit_append_loop sp nms k (target, first, v))"

text \<open>The residual is printed in hex \<open>if (*v || first)\<close>.\<close>

definition append_residual :: "string \<times> bool \<times> 'a::len word \<Rightarrow> string" where
  "append_residual st =
     (case st of (target, first, v) \<Rightarrow>
        if v \<noteq> 0 \<or> first then append_num16 (fst (append_skip_first target first)) v
        else target)"

definition do_bit_append ::
  "('z bitmask_enum_spec_scheme) \<Rightarrow> string list \<Rightarrow> string \<Rightarrow> 'a::len word \<Rightarrow> error + string" where
  "do_bit_append sp nms target v =
     (case do_bit_append_loop sp nms (length nms) (target, True, v) of
        Inl e \<Rightarrow> Inl e
      | Inr st \<Rightarrow> Inr (append_residual st))"

text \<open>
  The body of the loop of \<open>do_value_append\<close> at \<open>ndx\<close>; the flag returned with the
  state says whether the loop was left by \<open>break\<close>. \<open>*v & all_valid_bits\<close> is computed
  at the width of \<open>size_t\<close>.
\<close>

definition do_value_append_body ::
  "bool \<Rightarrow> 64 word \<Rightarrow> string list \<Rightarrow> nat \<Rightarrow> string \<times> bool \<times> 'a::len word
     \<Rightarrow> error + ((string \<times> bool \<times> 'a word) \<times> bool)" where
  "do_value_append_body sg all_valid_bits nms ndx st =
     (case st of (target, first, v) \<Rightarrow>
        let mask_v = (of_nat ndx :: 'a word) in
        if has_all v mask_v then
          (case names_at nms ndx of
             Inl e \<Rightarrow> Inl e
           | Inr nm \<Rightarrow>
               if nm \<noteq> [] then
                 (case append_skip_first target first of
                    (t1, f1) \<Rightarrow>
                      let v1 = v AND NOT mask_v in
                      Inr ((t1 @ nm, f1, v1), to_integer_size_t sg v1 AND all_valid_bits = 0))
               else Inr (st, False))
        else Inr (st, False))"

fun do_value_append_loop ::
  "bool \<Rightarrow> 64 word \<Rightarrow> string list \<Rightarrow> nat \<Rightarrow> string \<times> bool \<times> 'a::len word
     \<Rightarrow> error + (string \<times> bool \<times> 'a word)" where
  "do_value_append_loop sg all_valid_bits nms 0 st =
     (case do_value_append_body sg all_valid_bits nms 0 st of
        Inl e \<Rightarrow> Inl e
      | Inr (st1, brk) \<Rightarrow> Inr st1)"
| "do_value_append_loop sg all_valid_bits nms (Suc k) st =
     (case do_value_append_body sg all_valid_bits nms (Suc k) st of
        Inl e \<Rightarrow> Inl e
      | Inr (st1, brk) \<Rightarrow>
          if brk then Inr st1 else do_value_append_loop sg all_valid_bits nms k st1)"

text \<open>
  \<open>do_value_append\<close>: the direct lookup at \<open>valid_part\<close>, then, if nothing was printed,
  the linear search from \<open>int64_t ndx = valid_part\<close> down to 0, then the residual.
\<close>

definition do_value_append ::
  "bool \<Rightarrow> ('z bitmask_enum_spec_scheme) \<Rightarrow> string list \<Rightarrow> string \<Rightarrow> 'a::len word
     \<Rightarrow> error + string" where
  "do_value_append sg sp nms target v =
     (let all_valid_bits = valid_bits_v sp;
          valid_part = to_integer_size_t sg v AND all_valid_bits
      in case names_at nms (unat valid_part) of
           Inl e \<Rightarrow> Inl e
         | Inr nm \<Rightarrow>
             let st1 = (if nm \<noteq> [] then
                          (fst (append_skip_first target True) @ nm, False,
                           (ucast (to_integer_size_t sg v AND NOT all_valid_bits) :: 'a word))
                        else (target, True, v))
             in case (if fst (snd st1) \<and> 0 \<le> sint valid_part
                      then do_value_append_loop sg all_valid_bits nms (nat (sint valid_part)) st1
                      else Inr st1) of
                  Inl e \<Rightarrow> Inl e
                | Inr st2 \<Rightarrow> Inr (append_residual st2))"

text \<open>\<open>bitmask_enum_names_spec::append\<close>: the renderer is chosen by the number of names.\<close>

definition append_names ::
  "bool \<Rightarrow> bitmask_enum_names_spec \<Rightarrow> string \<Rightarrow> 'a::len word \<Rightarrow> error + string" where
  "append_names sg nsp target v =
     (if length (names nsp) = bits_length nsp then do_bit_append nsp (names nsp) target v
      else if length (names nsp) \<noteq> 0 then do_value_append sg nsp (names nsp) target v
      else Inr (append_num16 target v))"

section \<open>The valid combinations\<close>

text \<open>The values of \<open>E\<close> without an invalid bit: the distinct valid combinations.\<close>

definition valid_combinations :: "('z bitmask_enum_spec_scheme) \<Rightarrow> 'a::len word set" where
  "valid_combinations sp = {v. v AND NOT (max_value sp) = 0}"

section \<open>The per-bit rendering in the words of the spec\<close>

text \<open>
  The description of the per-bit mode, to be compared with \<open>do_bit_append\<close>: the bit
  positions from the most to the least significant one (\<open>ndx\<close> from \<open>N\<close> down to 1, the
  name of position \<open>ndx\<close> being \<open>names[N - ndx]\<close>).
\<close>

definition positions_down :: "nat \<Rightarrow> nat list" where
  "positions_down k = rev [1 ..< Suc k]"

text \<open>A bit that is both set in the value and has a non-empty name.\<close>

definition named_set_bit :: "string list \<Rightarrow> 'a::len word \<Rightarrow> nat \<Rightarrow> bool" where
  "named_set_bit nms v ndx = (bit v (ndx - 1) \<and> nms ! (length nms - ndx) \<noteq> [])"

definition named_set_positions :: "string list \<Rightarrow> 'a::len word \<Rightarrow> nat list" where
  "named_set_positions nms v = filter (named_set_bit nms v) (positions_down (length nms))"

text \<open>Names are joined by \<open>" + "\<close> for all but the first.\<close>

fun join_plus :: "string list \<Rightarrow> string" where
  "join_plus [] = []"
| "join_plus [x] = x"
| "join_plus (x # y # ys) = x @ '' + '' @ join_plus (y # ys)"

text \<open>Each printed bit is cleared from a working copy.\<close>

definition clear_positions :: "nat list \<Rightarrow> 'a::len word \<Rightarrow> 'a word" where
  "clear_positions ps v = fold (\<lambda>ndx w. w AND NOT (2 ^ (ndx - 1))) ps v"

text \<open>
  After the scan, the residual is appended in hexadecimal if any bit remains set or
  nothing was printed.
\<close>

definition render_bits_spec :: "string list \<Rightarrow> string \<Rightarrow> 'a::len word \<Rightarrow> string" where
  "render_bits_spec nms target v =
     (let ps = named_set_positions nms v;
          residual = clear_positions ps v
      in target @ join_plus (map (\<lambda>ndx. nms ! (length nms - ndx)) ps
                             @ (if residual \<noteq> 0 \<or> ps = [] then [hex_of_nat (unat residual)] else [])))"

text \<open>Auxiliary: what printing one position does to the state, and the tail of a join.\<close>

definition print_position :: "string list \<Rightarrow> nat \<Rightarrow> string \<times> bool \<times> 'a::len word \<Rightarrow> string \<times> bool \<times> 'a word" where
  "print_position nms ndx st =
     (case st of (target, first, v) \<Rightarrow>
        (fst (append_skip_first target first) @ nms ! (length nms - ndx), False,
         v AND NOT (2 ^ (ndx - 1))))"

definition join_more :: "string list \<Rightarrow> string" where
  "join_more xs = concat (map (\<lambda>x. '' + '' @ x) xs)"

section \<open>Properties of the operator suite\<close>

lemmas op_defs = op_or_def op_and_def op_xor_def op_compl_def op_plus_def op_minus_def
  max_value_def do_max_value_def

lemma and_xor_mask_eq:
  fixes l r m :: "'a::len word"
  assumes "l AND NOT m = 0"
  shows "l AND (r XOR m) = l AND NOT r"
proof (rule bit_eqI)
  fix n
  from assms have "\<not> bit (l AND NOT m) n" by simp
  then have "bit l n \<Longrightarrow> bit m n" by (auto simp: bit_simps dest: bit_imp_le_length)
  then show "bit (l AND (r XOR m)) n = bit (l AND NOT r) n"
    by (auto simp: bit_simps dest: bit_imp_le_length)
qed

text \<open>
  C1 (as amended). Without clipping, the underlying integer of \<open>l - r\<close> is \<open>*l & ~*r\<close> for
  all \<open>l\<close> and \<open>r\<close>. Under \<open>wrapclip::limit\<close> the complement is \<open>flip\<close>, so it is
  \<open>*l & (*r ^ valid_bits)\<close>, which is \<open>*l & ~*r\<close> whenever \<open>l\<close> has no invalid bit.
  \<open>l -= r\<close> stores that value in \<open>l\<close> and returns a reference to \<open>l\<close>.
\<close>

theorem C1_minus_clears_right_bits:
  fixes l r :: "'a::len word"
  shows "(\<not> bit_clip_v sp \<longrightarrow> op_minus sp l r = l AND NOT r)
       \<and> (bit_clip_v sp \<longrightarrow> op_minus sp l r = l AND (r XOR max_value sp))
       \<and> (l AND NOT (max_value sp) = 0 \<longrightarrow> op_minus sp l r = l AND NOT r)
       \<and> op_minus_assign sp l r = (op_minus sp l r, op_minus sp l r)"
  using and_xor_mask_eq [of l "do_max_value sp" r]
  by (simp add: op_defs op_minus_assign_def Let_def)

theorem C1_minus_clears_right_bits_witness:
  "\<not> bit_clip_v \<lparr>spec_valid_bits = 7, spec_bit_clip = wc_none\<rparr>
   \<and> (10 :: 8 word) AND NOT (max_value \<lparr>spec_valid_bits = 7, spec_bit_clip = wc_none\<rparr>) \<noteq> 0
   \<and> op_minus \<lparr>spec_valid_bits = 7, spec_bit_clip = wc_none\<rparr> (10 :: 8 word) 3 = 8
   \<and> bit_clip_v \<lparr>spec_valid_bits = 7, spec_bit_clip = wc_limit\<rparr>
   \<and> (6 :: 8 word) AND NOT (max_value \<lparr>spec_valid_bits = 7, spec_bit_clip = wc_limit\<rparr>) = 0
   \<and> op_minus \<lparr>spec_valid_bits = 7, spec_bit_clip = wc_limit\<rparr> (6 :: 8 word) 3 = 4
   \<and> op_minus_assign \<lparr>spec_valid_bits = 7, spec_bit_clip = wc_limit\<rparr> (6 :: 8 word) 3 = (4, 4)"
  using C1_minus_clears_right_bits [of "\<lparr>spec_valid_bits = 7, spec_bit_clip = wc_none\<rparr>" "10 :: 8 word" 3]
    C1_minus_clears_right_bits [of "\<lparr>spec_valid_bits = 7, spec_bit_clip = wc_limit\<rparr>" "6 :: 8 word" 3]
  by (simp add: bit_clip_v_def valid_bits_v_def max_value_def do_max_value_def)

text \<open>
  C1 as stated fails under \<open>wrapclip::limit\<close>: with valid bits \<open>0b111\<close>, \<open>l = 0b1111\<close>
  (an invalid bit set) and \<open>r = 0\<close>, \<open>l - r\<close> is \<open>0b0111\<close>, not \<open>*l & ~*r = 0b1111\<close>.
\<close>

theorem C1_counterexample:
  "op_minus \<lparr>spec_valid_bits = 7, spec_bit_clip = wc_limit\<rparr> (15 :: 8 word) 0
     \<noteq> (15 :: 8 word) AND NOT 0"
  by (simp add: op_defs bit_clip_v_def valid_bits_v_def)

text \<open>
  C3. \<open>make_safely(u)\<close> is \<open>u\<close> masked to the valid bits, for every bit pattern \<open>u\<close> of
  the underlying type (a negative \<open>u\<close> is a pattern with the top bit set); no bit
  outside \<open>valid_bits_v<E>\<close> is set in the result.
\<close>

theorem C3_make_safely_masks:
  fixes u :: "'a::len word"
  shows "make_safely sp u = u AND ucast (valid_bits_v sp)
       \<and> make_safely sp u AND NOT (max_value sp) = 0"
  by (simp add: make_safely_def op_defs bit_eq_iff bit_simps)

text \<open>
  C8. \<open>flip\<close> is an involution on all values, valid or not; it is the XOR with
  \<open>max_value<E>()\<close>, which is \<open>valid_bits_v<E>\<close> as a value of \<open>E\<close>: \<open>flip(v)\<close> and \<open>v\<close>
  differ exactly on the bits of \<open>valid_bits_v<E>\<close> and agree on every invalid bit.
\<close>

theorem C8_flip_involution:
  fixes v :: "'a::len word"
  shows "flip sp (flip sp v) = v
       \<and> max_value sp = (ucast (valid_bits_v sp) :: 'a word)
       \<and> flip sp v = v XOR ucast (valid_bits_v sp)
       \<and> flip sp v XOR v = ucast (valid_bits_v sp)
       \<and> flip sp v AND NOT (ucast (valid_bits_v sp)) = v AND NOT (ucast (valid_bits_v sp))"
  by (auto simp add: flip_def op_defs bit_eq_iff bit_simps)

text \<open>
  C9 (as amended). \<open>clear(set(v, m), m) == clear(v, m)\<close> holds for all \<open>v\<close> and \<open>m\<close>
  when the clip mode is not \<open>limit\<close>, and under \<open>limit\<close> for all \<open>v\<close> and every \<open>m\<close>
  without invalid bits. The common value is \<open>*v & ~*m\<close> without clipping, and
  \<open>*v & valid_bits & ~*m\<close> under \<open>limit\<close>.
\<close>

theorem C9_clear_after_set:
  fixes v m :: "'a::len word"
  shows "(\<not> bit_clip_v sp \<or> m AND NOT (max_value sp) = 0 \<longrightarrow>
            clear sp (set_bits v m) m = clear sp v m)
       \<and> (\<not> bit_clip_v sp \<longrightarrow> clear sp v m = v AND NOT m)
       \<and> (bit_clip_v sp \<and> m AND NOT (max_value sp) = 0 \<longrightarrow>
            clear sp v m = v AND max_value sp AND NOT m)"
  by (auto simp add: clear_def set_bits_def op_defs bit_eq_iff bit_simps)

theorem C9_clear_after_set_witness:
  "\<not> bit_clip_v \<lparr>spec_valid_bits = 7, spec_bit_clip = wc_none\<rparr>
   \<and> clear \<lparr>spec_valid_bits = 7, spec_bit_clip = wc_none\<rparr> (set_bits (5 :: 8 word) 9) 9 = 4
   \<and> clear \<lparr>spec_valid_bits = 7, spec_bit_clip = wc_none\<rparr> (5 :: 8 word) 9 = 4
   \<and> bit_clip_v \<lparr>spec_valid_bits = 7, spec_bit_clip = wc_limit\<rparr>
   \<and> (3 :: 8 word) AND NOT (max_value \<lparr>spec_valid_bits = 7, spec_bit_clip = wc_limit\<rparr>) = 0
   \<and> clear \<lparr>spec_valid_bits = 7, spec_bit_clip = wc_limit\<rparr> (set_bits (13 :: 8 word) 3) 3 = 4
   \<and> clear \<lparr>spec_valid_bits = 7, spec_bit_clip = wc_limit\<rparr> (13 :: 8 word) 3 = 4"
  using C9_clear_after_set [of "\<lparr>spec_valid_bits = 7, spec_bit_clip = wc_none\<rparr>" "9 :: 8 word" 5]
    C9_clear_after_set [of "\<lparr>spec_valid_bits = 7, spec_bit_clip = wc_limit\<rparr>" "3 :: 8 word" 13]
  by (simp add: bit_clip_v_def valid_bits_v_def max_value_def do_max_value_def set_bits_def
      op_plus_def op_or_def)

text \<open>
  C9 as stated fails under \<open>wrapclip::limit\<close> when \<open>m\<close> has an invalid bit: with valid
  bits \<open>0b111\<close>, \<open>v = 0\<close> and \<open>m = 0b1000\<close>, clearing after setting leaves \<open>0b1000\<close>,
  clearing alone leaves 0.
\<close>

theorem C9_counterexample:
  "clear \<lparr>spec_valid_bits = 7, spec_bit_clip = wc_limit\<rparr> (set_bits (0 :: 8 word) 8) 8
     \<noteq> clear \<lparr>spec_valid_bits = 7, spec_bit_clip = wc_limit\<rparr> (0 :: 8 word) 8"
  by (simp add: clear_def set_bits_def op_defs bit_clip_v_def valid_bits_v_def)

section \<open>The length of the range\<close>

lemma and_not_mask_eq_0_iff: "((v::'a::len word) AND NOT (mask k) = 0) = (v AND mask k = v)"
  by (auto simp: bit_eq_iff bit_simps)

lemma uint_less_exp_iff: "(uint (v::'a::len word) < 2 ^ k) = (unat v < 2 ^ k)"
  by (metis (lifting) ext of_nat_less_numeral_power_cancel_iff of_nat_unat)

lemma inj_on_word_of_nat:
  assumes k: "k \<le> LENGTH('a)"
  shows  "inj_on (of_nat :: nat \<Rightarrow> 'a::len word) {..<2^k}"
proof (rule inj_onI)
  fix x y :: nat
  assume x: "x \<in> {..<2^k}" and y: "y \<in> {..<2^k}"
    and e: "(of_nat x :: 'a word) = of_nat y"
  have p: "(2::nat) ^ k \<le> 2 ^ LENGTH('a)" using k by (rule power_increasing) simp
  from x have "x < 2 ^ k" by simp
  then have x': "x < 2 ^ LENGTH('a)" using p by (rule order_less_le_trans)
  from y have "y < 2 ^ k" by simp
  then have y': "y < 2 ^ LENGTH('a)" using p by (rule order_less_le_trans)
  have ux: "unat (of_nat x :: 'a word) = x" using x' by (simp add: unat_of_nat)
  have uy: "unat (of_nat y :: 'a word) = y" using y' by (simp add: unat_of_nat)
  from e have "unat (of_nat x :: 'a word) = unat (of_nat y :: 'a word)" by (rule arg_cong)
  then show "x = y" by (simp only: ux uy)
qed

lemma words_below_exp:
  assumes k: "k \<le> LENGTH('a)"
  shows "{v::'a::len word. unat v < 2 ^ k} = of_nat ` {..<2^k}"
proof (intro set_eqI iffI)
  fix v :: "'a word"
  assume "v \<in> {v. unat v < 2 ^ k}"
  then have "unat v \<in> {..<2^k}" by simp
  moreover have "v = of_nat (unat v)" by simp
  ultimately show "v \<in> of_nat ` {..<2^k}" by (rule rev_image_eqI)
next
  fix v :: "'a word"
  assume "v \<in> of_nat ` {..<2^k}"
  then obtain x where x: "x < 2 ^ k" "v = of_nat x" by auto
  have "(2::nat) ^ k \<le> 2 ^ LENGTH('a)" using k by (rule power_increasing) simp
  with x(1) have "x < 2 ^ LENGTH('a)" by (rule order_less_le_trans)
  with x have "unat v = x" by (simp add: unat_of_nat)
  with x show "v \<in> {v. unat v < 2 ^ k}" by simp
qed

lemma card_valid_combinations:
  "k \<le> LENGTH('a) \<Longrightarrow> card {v::'a::len word. v AND NOT (mask k) = 0} = 2 ^ k"
  by (simp add: and_not_mask_eq_0_iff mask_eq_iff uint_less_exp_iff words_below_exp card_image
      inj_on_word_of_nat)

lemma scast_mask_size_t: "k < LENGTH('a) \<Longrightarrow> (scast (mask k :: 'a::len word) :: 64 word) = mask k"
  by (auto simp: bit_eq_iff bit_simps)

lemma unat_inc_mask_size_t: 
  assumes k: "k < 64" 
  shows "unat (mask k + 1 :: 64 word) = 2 ^ k"
proof -
  have "(2::nat) ^ k < 2 ^ 64"
    using k by (simp only: power_strict_increasing_iff one_less_numeral_iff semiring_norm)
  then have "unat (of_nat (2 ^ k) :: 64 word) = 2 ^ k"
    by (simp only: unat_of_nat len_num0 len_bit0 len_num1 mod_less) simp
  then show ?thesis by (simp add: inc_mask_eq_exp)
qed

lemma range_length_contiguous:
  assumes "valid_bits_v sp = mask k" "k \<le> LENGTH('a::len)" "k < 64" "sg \<longrightarrow> k < LENGTH('a)"
  shows "unat (range_length sg sp TYPE('a)) = 2 ^ k"
  using assms
  by (auto simp add: range_length_def to_integer_size_t_def max_value_def do_max_value_def
      ucast_mask_eq min_def scast_mask_size_t unat_inc_mask_size_t)

lemma narrow_unsigned_no_wrap:
  fixes x :: "'a::len word"
  assumes "LENGTH('a) < 64"
  shows "to_integer_size_t False x \<noteq> - 1"
proof
  assume "to_integer_size_t False x = - 1"
  then have "bit (ucast x :: 64 word) 63" by (simp add: to_integer_size_t_def)
  then show False using assms by (auto simp: bit_simps dest: bit_imp_le_length)
qed

text \<open>
  C5 (as amended). \<open>range_length<E>()\<close> is \<open>max_value<E>()\<close>, the valid bits as a value
  of \<open>E\<close>, converted to \<open>size_t\<close>, plus one, in the arithmetic of \<open>size_t\<close>. It wraps
  to 0 exactly when the converted \<open>max_value\<close> is the maximum of \<open>size_t\<close> (never for an
  unsigned underlying type narrower than \<open>size_t\<close>); otherwise nothing wraps. When the
  valid bits are \<open>k\<close> contiguous bits from bit 0 (\<open>k < 64\<close>, within the underlying type,
  below its sign bit when that type is signed), it is the count \<open>2^k\<close> of the distinct
  valid combinations.
\<close>

theorem C5_range_length:
  "range_length sg sp TYPE('a::len) = to_integer_size_t sg (ucast (valid_bits_v sp) :: 'a word) + 1
   \<and> (range_length sg sp TYPE('a) = 0
        \<longleftrightarrow> to_integer_size_t sg (ucast (valid_bits_v sp) :: 'a word) = - 1)
   \<and> (range_length sg sp TYPE('a) \<noteq> 0 \<longrightarrow>
        unat (range_length sg sp TYPE('a))
          = unat (to_integer_size_t sg (ucast (valid_bits_v sp) :: 'a word)) + 1)
   \<and> (\<not> sg \<and> LENGTH('a) < 64 \<longrightarrow> range_length sg sp TYPE('a) \<noteq> 0)
   \<and> (valid_bits_v sp = mask k \<and> k \<le> LENGTH('a) \<and> k < 64 \<and> (sg \<longrightarrow> k < LENGTH('a)) \<longrightarrow>
        unat (range_length sg sp TYPE('a)) = card (valid_combinations sp :: 'a word set)
        \<and> card (valid_combinations sp :: 'a word set) = 2 ^ k)"
proof (intro conjI impI)
  let ?m = "to_integer_size_t sg (ucast (valid_bits_v sp) :: 'a word)"
  show d: "range_length sg sp TYPE('a) = ?m + 1"
    by (simp add: range_length_def max_value_def do_max_value_def)
  show z: "(range_length sg sp TYPE('a) = 0) = (?m = - 1)"
    unfolding d by (simp add: eq_neg_iff_add_eq_0)
  show "unat (range_length sg sp TYPE('a)) = unat ?m + 1"
    if "range_length sg sp TYPE('a) \<noteq> 0"
    using that unatSuc [of ?m] unfolding d by (simp add: add.commute)
  show "range_length sg sp TYPE('a) \<noteq> 0" if "\<not> sg \<and> LENGTH('a) < 64"
    using that narrow_unsigned_no_wrap [of "ucast (valid_bits_v sp) :: 'a word"] z by auto
  assume h: "valid_bits_v sp = mask k \<and> k \<le> LENGTH('a) \<and> k < 64 \<and> (sg \<longrightarrow> k < LENGTH('a))"
  then have "(max_value sp :: 'a word) = mask k"
    by (simp add: max_value_def do_max_value_def ucast_mask_eq min_def)
  with h show c: "card (valid_combinations sp :: 'a word set) = 2 ^ k"
    by (simp add: valid_combinations_def card_valid_combinations)
  from h show "unat (range_length sg sp TYPE('a)) = card (valid_combinations sp :: 'a word set)"
    by (simp add: range_length_contiguous c)
qed

theorem C5_range_length_witness:
  "range_length False \<lparr>spec_valid_bits = 7, spec_bit_clip = wc_none\<rparr> TYPE(8) = 8
   \<and> card (valid_combinations \<lparr>spec_valid_bits = 7, spec_bit_clip = wc_none\<rparr> :: 8 word set) = 8
   \<and> to_integer_size_t False (ucast (valid_bits_v \<lparr>spec_valid_bits = - 1, spec_bit_clip = wc_none\<rparr>) :: 64 word) = - 1
   \<and> range_length False \<lparr>spec_valid_bits = - 1, spec_bit_clip = wc_none\<rparr> TYPE(64) = 0"
  using C5_range_length [where sg = False and sp = "\<lparr>spec_valid_bits = 7, spec_bit_clip = wc_none\<rparr>"
      and ?'a = 8 and k = 3]
    C5_range_length [where sg = False and sp = "\<lparr>spec_valid_bits = - 1, spec_bit_clip = wc_none\<rparr>"
      and ?'a = 64 and k = 64]
  by (simp add: valid_bits_v_def mask_numeral range_length_def to_integer_size_t_def max_value_def
      do_max_value_def)

lemma gap_mask_valid_values:
  "(valid_combinations \<lparr>spec_valid_bits = 5, spec_bit_clip = wc_none, names = [''red'', [], ''blue'']\<rparr>
      :: 8 word set) = {0, 1, 4, 5}"
proof -
  have "((v :: 8 word) AND NOT 5 = 0) = (v \<in> {0, 1, 4, 5})" for v
  proof
    assume a: "v AND NOT 5 = 0"
    then have "v AND 5 = v" by (simp only: and_not_mask_eq_0_iff [of v 0, symmetric] bit_eq_iff bit_simps) auto
    then have "v \<le> 5" by (metis word_and_le1)
    then have "unat v \<le> 5" by (simp add: word_le_nat_alt)
    then have c: "unat v = 0 \<or> unat v = 1 \<or> unat v = 2 \<or> unat v = 3 \<or> unat v = 4 \<or> unat v = 5"
      by linarith
    have e: "word_of_nat (unat v) = v" by simp
    have "v = 0 \<or> v = 1 \<or> v = 2 \<or> v = 3 \<or> v = 4 \<or> v = 5"
      using c e by (elim disjE) simp_all
    moreover have "v \<noteq> 2" using a by auto
    moreover have "v \<noteq> 3" using a by auto
    ultimately show "v \<in> {0, 1, 4, 5}" by auto
  next
    assume "v \<in> {0, 1, 4, 5}"
    then show "v AND NOT 5 = 0" by auto
  qed
  then show ?thesis
    by (simp add: valid_combinations_def max_value_def do_max_value_def valid_bits_v_def set_eq_iff)
qed

text \<open>
  C5 as stated fails for valid bits with a gap: the bit names \<open>"red,,blue"\<close> give the
  valid bits \<open>0b101\<close>; \<open>range_length\<close> is 6, but only the four values 0, 1, 4 and 5
  are without an invalid bit.
\<close>

theorem C5_counterexample:
  "make_bitmask_enum_spec ''red,,blue'' wc_none
     = Inr \<lparr>spec_valid_bits = 5, spec_bit_clip = wc_none, names = [''red'', [], ''blue'']\<rparr>
   \<and> range_length False \<lparr>spec_valid_bits = 5, spec_bit_clip = wc_none, names = [''red'', [], ''blue'']\<rparr> TYPE(8) = 6
   \<and> card (valid_combinations \<lparr>spec_valid_bits = 5, spec_bit_clip = wc_none, names = [''red'', [], ''blue'']\<rparr> :: 8 word set) = 4"
  by (simp add: gap_mask_valid_values make_bitmask_enum_spec_def
      calc_valid_bits_from_bit_names_def bit_names_step_def range_length_def
      to_integer_size_t_def max_value_def do_max_value_def valid_bits_v_def)

text \<open>
  The wrap-around needs all 64 bits of the converted \<open>max_value\<close>: an unsigned 8-bit
  enum with all its bits valid has the range length 256, a signed one (whose
  \<open>max_value\<close> is then \<open>-1\<close>) the range length 0.
\<close>

lemma range_length_narrow_types:
  "range_length False \<lparr>spec_valid_bits = 255, spec_bit_clip = wc_none\<rparr> TYPE(8) = 256
   \<and> range_length True \<lparr>spec_valid_bits = 255, spec_bit_clip = wc_none\<rparr> TYPE(8) = 0"
  by (simp add: range_length_def to_integer_size_t_def max_value_def do_max_value_def
      valid_bits_v_def)

section \<open>Single bits by index\<close>

lemmas eval_defs = bits_length_def valid_bits_v_def bit_clip_v_def bit_width.simps make_at_def
  make_def make_safely_def op_defs

lemma scast_push_bit_1:
  assumes "n < 31 \<or> (n < 32 \<and> LENGTH('a::len) \<le> 32)"
  shows "(scast (push_bit n (1 :: 32 word)) :: 'a word) = push_bit n 1"
proof (rule bit_eqI)
  fix k
  assume "possible_bit TYPE('a word) k"
  then have k: "k < LENGTH('a)" by (simp add: possible_bit_word)
  show "bit (scast (push_bit n (1 :: 32 word)) :: 'a word) k = bit (push_bit n 1 :: 'a word) k"
    using assms k by (auto simp: bit_simps)
qed

text \<open>
  Where the shift stays below the sign bit of \<open>int\<close> (or the underlying type is no wider
  than \<open>int\<close>) and the bit is not clipped away, \<open>make_at\<close> yields the single bit.
\<close>

lemma make_at_in_range:
  fixes sp :: "'z bitmask_enum_spec_scheme"
  assumes "1 \<le> ndx" and "ndx \<le> 31 \<or> (ndx \<le> 32 \<and> LENGTH('a::len) \<le> 32)"
    and "\<not> bit_clip_v sp \<or> bit (valid_bits_v sp) (ndx - 1)"
  shows "(make_at sp ndx :: error + 'a word) = Inr (push_bit (ndx - 1) 1)"
proof -
  have c: "ndx - 1 < 31 \<or> (ndx - 1 < 32 \<and> LENGTH('a) \<le> 32)" using assms by auto
  then have lt: "\<not> 32 \<le> ndx - 1" by auto
  have s: "(scast (push_bit (ndx - 1) (1 :: 32 word)) :: 'a word) = push_bit (ndx - 1) 1"
    using c by (rule scast_push_bit_1)
  have m: "make sp (push_bit (ndx - 1) 1 :: 'a word) = push_bit (ndx - 1) 1"
  proof (cases "bit_clip_v sp")
    case False
    then show ?thesis by (simp add: make_def)
  next
    case True
    with assms(3) have v: "bit (valid_bits_v sp) (ndx - 1)" by simp
    have "(push_bit (ndx - 1) 1 :: 'a word) AND ucast (valid_bits_v sp) = push_bit (ndx - 1) 1"
    proof (rule bit_eqI)
      fix k
      show "bit ((push_bit (ndx - 1) 1 :: 'a word) AND ucast (valid_bits_v sp)) k
            = bit (push_bit (ndx - 1) 1 :: 'a word) k"
        using v by (auto simp: bit_simps dest: bit_imp_le_length)
    qed
    with True show ?thesis by (simp add: make_def make_safely_def op_defs)
  qed
  from assms(1) have "ndx \<noteq> 0" by simp
  then show ?thesis using lt s m by (simp add: make_at_def)
qed

text \<open>
  C2. The claim is that \<open>make_at<E>(ndx)\<close> has the underlying integer \<open>2^(ndx-1)\<close> for
  every \<open>ndx\<close> from 1 to \<open>bits_length<E>()\<close>. The code shifts the \<open>int\<close> literal
  \<open>1\<close>: for an enum over a 64-bit type with the 32 valid bits \<open>0xFFFFFFFF\<close> and no
  clipping, \<open>ndx = 32\<close> is within \<open>bits_length\<close>, \<open>1 << 31\<close> is the negative \<open>int\<close>
  minimum, and its conversion to the underlying type sets bits 31 to 63 instead of bit
  31 alone.
\<close>

theorem C2_make_at_wide_enum:
  "bits_length \<lparr>spec_valid_bits = 0xFFFFFFFF, spec_bit_clip = wc_none\<rparr> = 32
   \<and> (make_at \<lparr>spec_valid_bits = 0xFFFFFFFF, spec_bit_clip = wc_none\<rparr> 32 :: error + 64 word)
        = Inr 0xFFFFFFFF80000000
   \<and> (0xFFFFFFFF80000000 :: 64 word) \<noteq> 2 ^ (32 - 1)"
  by (simp add: eval_defs)

text \<open>One valid bit more, and the shift count 32 is undefined for an \<open>int\<close>.\<close>

lemma make_at_undefined_shift:
  "bits_length \<lparr>spec_valid_bits = 0x1FFFFFFFF, spec_bit_clip = wc_none\<rparr> = 33
   \<and> (make_at \<lparr>spec_valid_bits = 0x1FFFFFFFF, spec_bit_clip = wc_none\<rparr> 33 :: error + 64 word)
        = Inl UndefinedShift"
  by (simp add: eval_defs)

section \<open>Spec construction\<close>

text \<open>
  C10. A bit-name literal that begins with the comma is rejected by the
  \<open>static_assert\<close> of \<open>calc_valid_bits_from_bit_names\<close>, and with it
  \<open>make_bitmask_enum_spec\<close>: no spec is produced, in particular none whose first name is
  the empty piece.
\<close>

theorem C10_leading_comma_rejected:
  assumes "starts_with_comma bit_names"
  shows "calc_valid_bits_from_bit_names bit_names = Inl StaticAssertFailed
       \<and> make_bitmask_enum_spec bit_names bitclip = Inl StaticAssertFailed"
  using assms by (simp add: calc_valid_bits_from_bit_names_def make_bitmask_enum_spec_def)

theorem C10_leading_comma_rejected_witness:
  "starts_with_comma '',red,green''
   \<and> calc_valid_bits_from_bit_names '',red,green'' = Inl StaticAssertFailed
   \<and> make_bitmask_enum_spec '',red,green'' wc_none = Inl StaticAssertFailed"
  using C10_leading_comma_rejected [of "'',red,green''" wc_none] by simp

section \<open>Rendering with value names\<close>

lemmas render_defs = append_names_def do_bit_append_def do_value_append_def names_at_def
  append_residual_def append_skip_first_def append_num16_def has_def has_all_def
  to_integer_size_t_def hex_of_nat.simps hex_digit_def

lemmas build_defs = make_bitmask_enum_spec_def make_bitmask_enum_values_spec_def
  calc_valid_bits_from_bit_names_def calc_valid_bits_from_value_names_def
  calc_valid_bits_of_value_names_def value_names_step_def bit_names_step_def upt_rec


text \<open>
  C4. The claim is that the index of the direct lookup, \<open>*v & valid_bits_v<E>\<close>, is
  below the number \<open>N\<close> of names. With the value names \<open>",alpha,beta"\<close> (\<open>N = 3\<close>) the
  valid bits are \<open>1 | 2 = 3\<close>, the bit width is 2, so the per-combination renderer is
  chosen; for the value 3 the index is 3 and \<open>names[3]\<close> is read past the end.
\<close>

theorem C4_lookup_out_of_bounds:
  "names (make_bitmask_enum_values_spec '',alpha,beta'' wc_none) = [[], ''alpha'', ''beta'']
   \<and> valid_bits_v (make_bitmask_enum_values_spec '',alpha,beta'' wc_none) = 3
   \<and> \<not> unat (to_integer_size_t False (3 :: 8 word)
              AND valid_bits_v (make_bitmask_enum_values_spec '',alpha,beta'' wc_none))
        < length (names (make_bitmask_enum_values_spec '',alpha,beta'' wc_none))
   \<and> append_names False (make_bitmask_enum_values_spec '',alpha,beta'' wc_none) [] (3 :: 8 word)
        = Inl OutOfBounds"
  by (simp add: make_bitmask_enum_values_spec_def calc_valid_bits_from_value_names_def
      calc_valid_bits_of_value_names_def value_names_step_def valid_bits_v_def to_integer_size_t_def
      append_names_def bits_length_def bit_width.simps do_value_append_def names_at_def upt_rec)

text \<open>
  A table that lists all \<open>2^k\<close> combinations is safe: the valid bits are the OR of
  indices below \<open>2^k\<close>, so the index of the direct lookup stays below the table's length.
\<close>

lemma fold_value_names_step_high_bits:
  assumes "\<forall>i \<in> set is. i < 2 ^ k" "\<forall>n \<ge> k. \<not> bit acc n"
  shows "\<forall>n \<ge> k. \<not> bit (fold (value_names_step nms) is acc) n"
  using assms
proof (induction "is" arbitrary: acc)
  case Nil
  then show ?case by simp
next
  case (Cons i "is")
  have "\<forall>n \<ge> k. \<not> bit (value_names_step nms i acc) n"
  proof (intro allI impI)
    fix n assume n: "k \<le> n"
    from Cons.prems(1) have "i < 2 ^ k" by simp
    also have "(2::nat) ^ k \<le> 2 ^ n" using n by (rule power_increasing) simp
    finally have "\<not> bit i n" by (simp add: bit_iff_odd)
    then have "\<not> bit (of_nat i :: 64 word) n" by (simp add: bit_simps)
    with Cons.prems(2) n show "\<not> bit (value_names_step nms i acc) n"
      by (simp add: value_names_step_def bit_simps)
  qed
  moreover from Cons.prems(1) have "\<forall>i \<in> set is. i < 2 ^ k" by simp
  ultimately have "\<forall>n \<ge> k. \<not> bit (fold (value_names_step nms) is (value_names_step nms i acc)) n"
    by (rule Cons.IH [rotated])
  then show ?case by simp
qed

lemma word_high_bits_clear_less:
  fixes w :: "64 word"
  assumes "\<forall>n \<ge> k. \<not> bit w n"
  shows "unat w < 2 ^ k"
proof -
  have "take_bit k w = w"
  proof (rule bit_eqI)
    fix n
    from assms have "bit w n \<Longrightarrow> n < k" by (meson not_le)
    then show "bit (take_bit k w) n = bit w n" by (auto simp: bit_simps)
  qed
  then have "unat w = take_bit k (unat w)" by (metis unsigned_take_bit_eq)
  then show ?thesis by (metis take_bit_nat_less_exp)
qed

lemma complete_table_lookup_in_bounds:
  fixes v :: "'a::len word"
  assumes "length nms = 2 ^ k"
  shows "unat (to_integer_size_t sg v AND calc_valid_bits_of_value_names nms) < length nms"
proof -
  have "\<forall>n \<ge> k. \<not> bit (calc_valid_bits_of_value_names nms) n"
    unfolding calc_valid_bits_of_value_names_def
    by (rule fold_value_names_step_high_bits) (use assms in auto)
  then have "\<forall>n \<ge> k. \<not> bit (to_integer_size_t sg v AND calc_valid_bits_of_value_names nms) n"
    by (simp add: bit_simps)
  then show ?thesis unfolding assms by (rule word_high_bits_clear_less)
qed

text \<open>
  C6. With a per-combination table (not empty, its length different from the bit width),
  a value whose valid part indexes a non-empty name is rendered as exactly that name: the
  name is appended, the valid bits are consumed (none is left in the working copy), the
  search for further names is skipped, and only invalid bits, if any, follow in hex. With
  the value names \<open>",alpha,beta,gamma"\<close> the raw value 3 renders as \<open>"gamma"\<close>.
\<close>

theorem C6_exact_match:
  fixes v :: "'a::len word"
  shows "(length (names nsp) \<noteq> 0 \<and> length (names nsp) \<noteq> bits_length nsp
          \<and> names_at (names nsp) (unat (to_integer_size_t sg v AND valid_bits_v nsp)) = Inr nm
          \<and> nm \<noteq> [] \<longrightarrow>
          append_names sg nsp target v =
            Inr (append_residual (target @ nm, False,
                   (ucast (to_integer_size_t sg v AND NOT (valid_bits_v nsp)) :: 'a word)))
          \<and> (ucast (to_integer_size_t sg v AND NOT (valid_bits_v nsp)) :: 'a word) AND max_value nsp = 0
          \<and> (to_integer_size_t sg v AND NOT (valid_bits_v nsp) = 0 \<longrightarrow>
                append_names sg nsp target v = Inr (target @ nm)))
       \<and> append_names True (make_bitmask_enum_values_spec '',alpha,beta,gamma'' wc_none) []
            (3 :: 32 word) = Inr ''gamma''"
proof (intro conjI impI)
  assume h: "length (names nsp) \<noteq> 0 \<and> length (names nsp) \<noteq> bits_length nsp
          \<and> names_at (names nsp) (unat (to_integer_size_t sg v AND valid_bits_v nsp)) = Inr nm
          \<and> nm \<noteq> []"
  then show a: "append_names sg nsp target v =
            Inr (append_residual (target @ nm, False,
                   (ucast (to_integer_size_t sg v AND NOT (valid_bits_v nsp)) :: 'a word)))"
    by (simp add: append_names_def do_value_append_def Let_def append_skip_first_def)
  show "(ucast (to_integer_size_t sg v AND NOT (valid_bits_v nsp)) :: 'a word) AND max_value nsp = 0"
    by (rule bit_eqI) (auto simp: bit_simps max_value_def do_max_value_def)
  show "append_names sg nsp target v = Inr (target @ nm)"
    if "to_integer_size_t sg v AND NOT (valid_bits_v nsp) = 0"
    using a that by (simp add: append_residual_def)
next
  show "append_names True (make_bitmask_enum_values_spec '',alpha,beta,gamma'' wc_none) []
            (3 :: 32 word) = Inr ''gamma''"
    by (simp add: render_defs build_defs eval_defs)
qed

theorem C6_exact_match_witness:
  "append_names True \<lparr>spec_valid_bits = 3, spec_bit_clip = wc_none,
       names = [[], ''alpha'', ''beta'', ''gamma'']\<rparr> ''v='' (11 :: 32 word) = Inr ''v=gamma + 8''
  \<and> append_names True \<lparr>spec_valid_bits = 3, spec_bit_clip = wc_none,
       names = [[], ''alpha'', ''beta'', ''gamma'']\<rparr> ''v='' (2 :: 32 word) = Inr ''v=beta''"
  using C6_exact_match [of "\<lparr>spec_valid_bits = 3, spec_bit_clip = wc_none,
       names = [[], ''alpha'', ''beta'', ''gamma'']\<rparr>" True "11 :: 32 word" "''gamma''" "''v=''"]
   C6_exact_match [of "\<lparr>spec_valid_bits = 3, spec_bit_clip = wc_none,
       names = [[], ''alpha'', ''beta'', ''gamma'']\<rparr>" True "2 :: 32 word" "''beta''" "''v=''"]
  by (simp add: names_at_def to_integer_size_t_def valid_bits_v_def bits_length_def bit_width.simps
      append_residual_def append_skip_first_def append_num16_def hex_of_nat.simps hex_digit_def)

section \<open>Rendering with bit names\<close>

text \<open>The per-bit scenario of the spec: \<open>"red,green,blue"\<close> with red and blue set, and
  with bit 3 set in addition.\<close>

lemma per_bit_examples:
  "make_bitmask_enum_spec ''red,green,blue'' wc_none
     = Inr \<lparr>spec_valid_bits = 7, spec_bit_clip = wc_none, names = [''red'', ''green'', ''blue'']\<rparr>
   \<and> append_names True \<lparr>spec_valid_bits = 7, spec_bit_clip = wc_none,
         names = [''red'', ''green'', ''blue'']\<rparr> [] (5 :: 32 word) = Inr ''red + blue''
   \<and> append_names True \<lparr>spec_valid_bits = 7, spec_bit_clip = wc_none,
         names = [''red'', ''green'', ''blue'']\<rparr> [] (13 :: 32 word) = Inr ''red + blue + 8''"
  by (simp add: render_defs build_defs eval_defs)

text \<open>
  For a table of at most 31 names (32 when the underlying type is no wider than \<open>int\<close>)
  built by \<open>make_bitmask_enum_spec\<close>, the renderer does what the spec describes.
\<close>

lemma positions_down_simps:
  "positions_down 0 = []" "positions_down (Suc k) = Suc k # positions_down k"
  by (simp_all add: positions_down_def)

lemma set_positions_down: "set (positions_down k) = {1 .. k}"
  by (auto simp: positions_down_def)

lemma make_at_cases:
  fixes sp :: "'z bitmask_enum_spec_scheme"
  assumes "1 \<le> ndx" and "ndx \<le> 31 \<or> (ndx \<le> 32 \<and> LENGTH('a::len) \<le> 32)"
  shows "(make_at sp ndx :: error + 'a word) = Inr (2 ^ (ndx - 1))
       \<or> (bit_clip_v sp \<and> \<not> bit (valid_bits_v sp) (ndx - 1) \<and> (make_at sp ndx :: error + 'a word) = Inr 0)"
proof (cases "\<not> bit_clip_v sp \<or> bit (valid_bits_v sp) (ndx - 1)")
  case True
  with assms show ?thesis by (simp add: make_at_in_range)
next
  case False
  have c: "ndx - 1 < 31 \<or> (ndx - 1 < 32 \<and> LENGTH('a) \<le> 32)" using assms by auto
  then have lt: "\<not> 32 \<le> ndx - 1" by auto
  have s: "(scast (push_bit (ndx - 1) (1 :: 32 word)) :: 'a word) = push_bit (ndx - 1) 1"
    using c by (rule scast_push_bit_1)
  have "(push_bit (ndx - 1) 1 :: 'a word) AND ucast (valid_bits_v sp) = 0"
  proof (rule bit_eqI)
    fix k
    show "bit ((push_bit (ndx - 1) 1 :: 'a word) AND ucast (valid_bits_v sp)) k = bit (0 :: 'a word) k"
      using False by (auto simp: bit_simps)
  qed
  with False have "make sp (push_bit (ndx - 1) 1 :: 'a word) = 0"
    by (simp add: make_def make_safely_def op_defs)
  moreover from assms(1) have "ndx \<noteq> 0" by simp
  ultimately show ?thesis using False lt s by (simp add: make_at_def)
qed

lemma has_single_bit: "has (w :: 'a::len word) (2 ^ n) = bit w n"
proof (cases "bit w n")
  case True
  then have "n < LENGTH('a)" by (rule bit_imp_le_length)
  with True have "bit (w AND 2 ^ n) n" by (simp add: bit_simps)
  then have "w AND 2 ^ n \<noteq> 0" by auto
  with True show ?thesis by (simp add: has_def op_and_def)
next
  case False
  have "w AND 2 ^ n = 0"
    by (rule bit_eqI) (use False in \<open>auto simp: bit_simps\<close>)
  with False show ?thesis by (simp add: has_def op_and_def)
qed

lemma filter_cleared:
  "filter (named_set_bit nms (w AND NOT (2 ^ k))) (positions_down k)
   = filter (named_set_bit nms w) (positions_down k)"
  by (rule filter_cong) (auto simp: named_set_bit_def bit_simps set_positions_down dest: bit_imp_le_length)

lemma loop_step_print:
  assumes "make_at sp (Suc k) = Inr m" "has w m" "names_at nms (length nms - Suc k) = Inr nm" "nm \<noteq> []"
  shows "do_bit_append_loop sp nms (Suc k) (target, first, w)
        = do_bit_append_loop sp nms k (fst (append_skip_first target first) @ nm, False, w AND NOT m)"
  using assms by (simp add: append_skip_first_def)

lemma loop_step_skip:
  assumes "make_at sp (Suc k) = Inr m" "names_at nms (length nms - Suc k) = Inr nm" "\<not> (has w m \<and> nm \<noteq> [])"
  shows "do_bit_append_loop sp nms (Suc k) (target, first, w)
        = do_bit_append_loop sp nms k (target, first, w)"
  using assms by auto

lemma do_bit_append_loop_eq:
  fixes sp :: "'z bitmask_enum_spec_scheme" and w :: "'a::len word"
  assumes "length nms \<le> 31 \<or> (length nms \<le> 32 \<and> LENGTH('a) \<le> 32)"
    and "\<not> bit_clip_v sp \<or>
         (\<forall>ndx. 1 \<le> ndx \<and> ndx \<le> length nms \<and> nms ! (length nms - ndx) \<noteq> []
            \<longrightarrow> bit (valid_bits_v sp) (ndx - 1))"
    and "k \<le> length nms"
  shows "do_bit_append_loop sp nms k (target, first, w)
         = Inr (fold (print_position nms) (filter (named_set_bit nms w) (positions_down k))
                  (target, first, w))"
  using assms(3)
proof (induction k arbitrary: target first w)
  case 0
  show ?case by (simp add: positions_down_simps)
next
  case (Suc k)
  let ?nm = "nms ! (length nms - Suc k)"
  have r: "1 \<le> Suc k" "Suc k \<le> 31 \<or> (Suc k \<le> 32 \<and> LENGTH('a) \<le> 32)"
    using Suc.prems assms(1) by auto
  have inb: "names_at nms (length nms - Suc k) = Inr ?nm"
    using Suc.prems by (simp add: names_at_def)
  have k: "k \<le> length nms" using Suc.prems by simp
  from make_at_cases [OF r, of sp]
  consider (bit) "(make_at sp (Suc k) :: error + 'a word) = Inr (2 ^ k)"
    | (zero) "bit_clip_v sp" "\<not> bit (valid_bits_v sp) k" "(make_at sp (Suc k) :: error + 'a word) = Inr 0"
    by auto
  then show ?case
  proof cases
    case bit
    show ?thesis
    proof (cases "named_set_bit nms w (Suc k)")
      case True
      then have h: "has w (2 ^ k)" and n: "?nm \<noteq> []"
        by (simp_all add: named_set_bit_def has_single_bit)
      have "do_bit_append_loop sp nms (Suc k) (target, first, w)
            = do_bit_append_loop sp nms k (fst (append_skip_first target first) @ ?nm, False, w AND NOT (2 ^ k))"
        using bit h inb n by (rule loop_step_print)
      also have "\<dots> = Inr (fold (print_position nms) (filter (named_set_bit nms w) (positions_down k))
                  (print_position nms (Suc k) (target, first, w)))"
      proof -
        have p: "print_position nms (Suc k) (target, first, w)
                 = (fst (append_skip_first target first) @ ?nm, False, w AND NOT (2 ^ k))"
          by (simp add: print_position_def)
        show ?thesis by (simp only: Suc.IH [OF k] filter_cleared p)
      qed
      finally show ?thesis using True by (simp add: positions_down_simps)
    next
      case False
      then have "\<not> (has w (2 ^ k) \<and> ?nm \<noteq> [])" by (simp add: named_set_bit_def has_single_bit)
      with bit inb have "do_bit_append_loop sp nms (Suc k) (target, first, w)
            = do_bit_append_loop sp nms k (target, first, w)"
        by (rule loop_step_skip)
      then show ?thesis using False by (simp add: positions_down_simps Suc.IH [OF k])
    qed
  next
    case zero
    with assms(2) r Suc.prems have e: "?nm = []" by auto
    then have f: "\<not> named_set_bit nms w (Suc k)" by (simp add: named_set_bit_def)
    from e have "\<not> (has w 0 \<and> ?nm \<noteq> [])" by simp
    with zero(3) inb have "do_bit_append_loop sp nms (Suc k) (target, first, w)
            = do_bit_append_loop sp nms k (target, first, w)"
      by (rule loop_step_skip)
    then show ?thesis using f by (simp add: positions_down_simps Suc.IH [OF k])
  qed
qed


lemma join_plus_Cons: "join_plus (x # xs) = x @ join_more xs"
  by (induction xs arbitrary: x) (simp_all add: join_more_def)

lemma join_plus_snoc: "xs \<noteq> [] \<Longrightarrow> join_plus (xs @ [y]) = join_plus xs @ '' + '' @ y"
  by (cases xs) (simp_all add: join_plus_Cons join_more_def)

lemma fold_print_position_later:
  "fold (print_position nms) ps (t, False, w)
   = (t @ join_more (map (\<lambda>ndx. nms ! (length nms - ndx)) ps), False, clear_positions ps w)"
proof (induction ps arbitrary: t w)
  case Nil
  show ?case by (simp add: join_more_def clear_positions_def)
next
  case (Cons p ps)
  have "print_position nms p (t, False, w)
        = (t @ '' + '' @ nms ! (length nms - p), False, w AND NOT (2 ^ (p - 1)))"
    by (simp add: print_position_def append_skip_first_def)
  then show ?case
    using Cons.IH [of "t @ '' + '' @ nms ! (length nms - p)" "w AND NOT (2 ^ (p - 1))"]
    by (simp add: join_more_def clear_positions_def)
qed

lemma fold_print_position_first:
  assumes "ps \<noteq> []"
  shows "fold (print_position nms) ps (t, True, w)
   = (t @ join_plus (map (\<lambda>ndx. nms ! (length nms - ndx)) ps), False, clear_positions ps w)"
proof -
  from assms obtain p ps' where ps: "ps = p # ps'" by (cases ps) auto
  have "print_position nms p (t, True, w)
        = (t @ nms ! (length nms - p), False, w AND NOT (2 ^ (p - 1)))"
    by (simp add: print_position_def append_skip_first_def)
  then show ?thesis
    using fold_print_position_later [of nms ps' "t @ nms ! (length nms - p)" "w AND NOT (2 ^ (p - 1))"]
    by (simp add: ps join_plus_Cons clear_positions_def)
qed

lemma do_bit_append_refines:
  fixes sp :: "'z bitmask_enum_spec_scheme" and v :: "'a::len word"
  assumes "length nms \<le> 31 \<or> (length nms \<le> 32 \<and> LENGTH('a) \<le> 32)"
    and "\<not> bit_clip_v sp \<or>
         (\<forall>ndx. 1 \<le> ndx \<and> ndx \<le> length nms \<and> nms ! (length nms - ndx) \<noteq> []
            \<longrightarrow> bit (valid_bits_v sp) (ndx - 1))"
  shows "do_bit_append sp nms target v = Inr (render_bits_spec nms target v)"
proof -
  let ?ps = "named_set_positions nms v"
  let ?names = "map (\<lambda>ndx. nms ! (length nms - ndx)) ?ps"
  have loop: "do_bit_append_loop sp nms (length nms) (target, True, v)
              = Inr (fold (print_position nms) ?ps (target, True, v))"
    using do_bit_append_loop_eq [OF assms order_refl] by (simp add: named_set_positions_def)
  show ?thesis
  proof (cases "?ps = []")
    case True
    then show ?thesis
      by (simp add: do_bit_append_def loop render_bits_spec_def append_residual_def
          append_skip_first_def append_num16_def clear_positions_def)
  next
    case False
    then have n: "?names \<noteq> []" by simp
    have "fold (print_position nms) ?ps (target, True, v)
          = (target @ join_plus ?names, False, clear_positions ?ps v)"
      using False by (rule fold_print_position_first)
    then show ?thesis
      using False join_plus_snoc [OF n]
      by (simp add: do_bit_append_def loop render_bits_spec_def append_residual_def
          append_skip_first_def append_num16_def Let_def)
  qed
qed


lemma bit_names_step_pow:
  "bit_names_step nm (acc, 2 ^ j) = ((if nm \<noteq> [] then acc OR 2 ^ j else acc), 2 ^ Suc j)"
  by (simp add: bit_names_step_def)

lemma fold_bit_names_step_mono:
  "bit acc n \<Longrightarrow> bit (fst (fold bit_names_step xs (acc, 2 ^ j))) n"
proof (induction xs arbitrary: acc j)
  case Nil
  then show ?case by simp
next
  case (Cons x xs)
  have "bit (if x \<noteq> [] then acc OR 2 ^ j else acc) n"
    using Cons.prems by (simp add: bit_simps)
  then have "bit (fst (fold bit_names_step xs ((if x \<noteq> [] then acc OR 2 ^ j else acc), 2 ^ Suc j))) n"
    by (rule Cons.IH)
  then show ?case by (simp only: fold_simps bit_names_step_pow)
qed

lemma fold_bit_names_step_named:
  assumes "i < length xs" "xs ! i \<noteq> []" "j + i < 64"
  shows "bit (fst (fold bit_names_step xs (acc, 2 ^ j))) (j + i)"
  using assms
proof (induction xs arbitrary: acc j i)
  case Nil
  then show ?case by simp
next
  case (Cons x xs)
  let ?acc = "if x \<noteq> [] then acc OR 2 ^ j else acc"
  show ?case
  proof (cases i)
    case 0
    with Cons.prems have "bit ?acc (j + i)" by (simp add: bit_simps)
    then have "bit (fst (fold bit_names_step xs (?acc, 2 ^ Suc j))) (j + i)"
      by (rule fold_bit_names_step_mono)
    then show ?thesis by (simp only: fold_simps bit_names_step_pow)
  next
    case (Suc i')
    with Cons.prems have "i' < length xs" "xs ! i' \<noteq> []" "Suc j + i' < 64" by simp_all
    then have "bit (fst (fold bit_names_step xs (?acc, 2 ^ Suc j))) (Suc j + i')"
      by (rule Cons.IH)
    then show ?thesis by (simp only: fold_simps bit_names_step_pow) (simp add: Suc)
  qed
qed

lemma built_spec_named_bits_valid:
  assumes "make_bitmask_enum_spec bit_names clip = Inr nsp"
    and "1 \<le> ndx" "ndx \<le> length (names nsp)" "names nsp ! (length (names nsp) - ndx) \<noteq> []"
    and "ndx \<le> 64"
  shows "bit (valid_bits_v nsp) (ndx - 1)"
proof -
  let ?nms = "fixed_split bit_names"
  from assms(1) have nsp: "names nsp = ?nms"
      "valid_bits_v nsp = fst (fold bit_names_step (rev ?nms) (0, 2 ^ 0))"
    by (auto simp: make_bitmask_enum_spec_def calc_valid_bits_from_bit_names_def valid_bits_v_def
        split: if_splits)
  have i: "ndx - 1 < length (rev ?nms)" using assms(2,3) nsp by simp
  have "rev ?nms ! (ndx - 1) = ?nms ! (length ?nms - Suc (ndx - 1))"
    using i by (simp add: rev_nth)
  also have "\<dots> = ?nms ! (length ?nms - ndx)" using assms(2) by simp
  finally have n: "rev ?nms ! (ndx - 1) \<noteq> []" using assms(4) nsp by simp
  have "0 + (ndx - 1) < 64" using assms(2,5) by simp
  with i n have "bit (fst (fold bit_names_step (rev ?nms) (0, 2 ^ 0))) (0 + (ndx - 1))"
    by (rule fold_bit_names_step_named)
  then show ?thesis by (simp add: nsp)
qed

lemma per_bit_render_small_table:
  fixes v :: "'a::len word"
  assumes "make_bitmask_enum_spec bit_names clip = Inr nsp"
    and "length (names nsp) = bits_length nsp"
    and "length (names nsp) \<le> 31 \<or> (length (names nsp) \<le> 32 \<and> LENGTH('a) \<le> 32)"
  shows "append_names sg nsp target v = Inr (render_bits_spec (names nsp) target v)"
proof -
  have "\<forall>ndx. 1 \<le> ndx \<and> ndx \<le> length (names nsp) \<and> names nsp ! (length (names nsp) - ndx) \<noteq> []
            \<longrightarrow> bit (valid_bits_v nsp) (ndx - 1)"
    using built_spec_named_bits_valid [OF assms(1)] assms(3) by auto
  then have "do_bit_append nsp (names nsp) target v = Inr (render_bits_spec (names nsp) target v)"
    using assms(3) by (intro do_bit_append_refines) auto
  with assms(2) show ?thesis by (simp add: append_names_def)
qed

lemma per_bit_render_small_table_example:
  "append_names True \<lparr>spec_valid_bits = 7, spec_bit_clip = wc_limit,
         names = [''red'', ''green'', ''blue'']\<rparr> [] (13 :: 32 word)
    = Inr (render_bits_spec [''red'', ''green'', ''blue''] [] (13 :: 32 word))
   \<and> render_bits_spec [''red'', ''green'', ''blue''] [] (13 :: 32 word) = ''red + blue + 8''"
  using per_bit_render_small_table [of "''red,green,blue''" wc_limit
      "\<lparr>spec_valid_bits = 7, spec_bit_clip = wc_limit, names = [''red'', ''green'', ''blue'']\<rparr>"
      True "[]" "13 :: 32 word"]
  by (simp add: make_bitmask_enum_spec_def calc_valid_bits_from_bit_names_def bit_names_step_def
      bits_length_def valid_bits_v_def bit_width.simps render_bits_spec_def named_set_positions_def
      positions_down_def named_set_bit_def clear_positions_def hex_of_nat.simps hex_digit_def upt_rec)

text \<open>
  C7. The claim is that the per-bit renderer appends the names of exactly the set, named
  bits and leaves every other set bit to the hex residual. For an enum over a 64-bit type
  with 32 bit names and the value \<open>2^40\<close> (no named bit set), the mask of the first round,
  \<open>make_at<E>(32)\<close>, has the bits 31 to 63 set: the name of bit 31 is printed although
  bit 31 is clear, bit 40 is cleared with it and never reaches the residual.
\<close>

theorem C7_per_bit_wide_table:
  "make_bitmask_enum_spec ''b31,b30,b29,b28,b27,b26,b25,b24,b23,b22,b21,b20,b19,b18,b17,b16,b15,b14,b13,b12,b11,b10,b9,b8,b7,b6,b5,b4,b3,b2,b1,b0'' wc_none
     = Inr \<lparr>spec_valid_bits = 0xFFFFFFFF, spec_bit_clip = wc_none, names = fixed_split ''b31,b30,b29,b28,b27,b26,b25,b24,b23,b22,b21,b20,b19,b18,b17,b16,b15,b14,b13,b12,b11,b10,b9,b8,b7,b6,b5,b4,b3,b2,b1,b0''\<rparr>
   \<and> length (fixed_split ''b31,b30,b29,b28,b27,b26,b25,b24,b23,b22,b21,b20,b19,b18,b17,b16,b15,b14,b13,b12,b11,b10,b9,b8,b7,b6,b5,b4,b3,b2,b1,b0'') = 32
   \<and> bits_length \<lparr>spec_valid_bits = 0xFFFFFFFF, spec_bit_clip = wc_none, names = fixed_split ''b31,b30,b29,b28,b27,b26,b25,b24,b23,b22,b21,b20,b19,b18,b17,b16,b15,b14,b13,b12,b11,b10,b9,b8,b7,b6,b5,b4,b3,b2,b1,b0''\<rparr> = 32
   \<and> append_names False \<lparr>spec_valid_bits = 0xFFFFFFFF, spec_bit_clip = wc_none, names = fixed_split ''b31,b30,b29,b28,b27,b26,b25,b24,b23,b22,b21,b20,b19,b18,b17,b16,b15,b14,b13,b12,b11,b10,b9,b8,b7,b6,b5,b4,b3,b2,b1,b0''\<rparr>
        [] (0x10000000000 :: 64 word) = Inr ''b31''
   \<and> \<not> bit (0x10000000000 :: 64 word) 31"
  by (simp add: render_defs build_defs eval_defs)


end
